theory Spec2Isabelle
  imports Complex_Main "HOL-Library.AList" "HOL-Library.Multiset"
begin

section \<open>Library primitives used by \<^verbatim>\<open>count_min_sketch.py\<close>\<close>

text \<open>
  The module accumulates \<^verbatim>\<open>Decimal\<close> amounts into a NumPy table of \<^verbatim>\<open>float64\<close> cells,
  addressed by SHA-256 digests. None of these library operations is defined in the
  repository, and the binary rounding of \<^verbatim>\<open>float64\<close> and the context rounding of
  \<^verbatim>\<open>Decimal\<close> are not exact arithmetic. They enter the model as the fields of one record
  of primitives, over a type \<open>'d\<close> of Decimal values and a type \<open>'f\<close> of float64 values;
  every function of the module takes that record as its first argument. A theorem that
  holds for every record of primitives holds for the arithmetic of the interpreter.

  Decimal comparison (\<^verbatim>\<open><\<close>, \<^verbatim>\<open>>\<close>) is the order of the type \<open>'d\<close>, a linear order:
  the model covers the values on which Decimal comparison is defined (every finite value
  and the infinities; a comparison with NaN raises in Python).

  A property whose truth is decided by the rounding itself (whether an estimate can fall
  below the exact Decimal sum of the amounts, whether two orders of accumulation give the
  same cell) has no statement over these primitives: binary64 addition is neither exact
  nor associative, and nothing weaker that could be assumed of \<open>fadd\<close> settles it.
\<close>

datatype error = ValueError | ZeroDivisionError | IndexError | KeyError | InvalidOperation

record ('d, 'f) prims =
  digest :: "nat \<Rightarrow> string \<Rightarrow> nat"
    \<comment> \<open>\<^verbatim>\<open>int(hashlib.sha256(f"{self.hash_salts[seed]}:{item}".encode()).hexdigest(), 16)\<close>,
        where \<^verbatim>\<open>hash_salts[seed]\<close> is \<^verbatim>\<open>f"salt_{seed}"\<close>\<close>
  to_float :: "'d \<Rightarrow> 'f"          \<comment> \<open>\<^verbatim>\<open>float(net_fee)\<close>\<close>
  of_float :: "'f \<Rightarrow> 'd"          \<comment> \<open>\<^verbatim>\<open>Decimal(str(x))\<close>\<close>
  fzero :: "'f"                  \<comment> \<open>the cells of \<^verbatim>\<open>np.zeros\<close>\<close>
  finf :: "'f"                   \<comment> \<open>\<^verbatim>\<open>float('inf')\<close>\<close>
  fadd :: "'f \<Rightarrow> 'f \<Rightarrow> 'f"         \<comment> \<open>\<^verbatim>\<open>+\<close> on float64\<close>
  fless :: "'f \<Rightarrow> 'f \<Rightarrow> bool"      \<comment> \<open>\<^verbatim>\<open><\<close> on float64\<close>
  dzero :: "'d"                  \<comment> \<open>\<^verbatim>\<open>Decimal("0.00")\<close>\<close>
  dadd :: "'d \<Rightarrow> 'd \<Rightarrow> 'd"         \<comment> \<open>\<^verbatim>\<open>+\<close> on Decimal\<close>
  dabsdiff :: "'d \<Rightarrow> 'd \<Rightarrow> error + 'd"
    \<comment> \<open>\<^verbatim>\<open>abs(a - b)\<close> on Decimal, which raises \<^verbatim>\<open>InvalidOperation\<close> on two infinities\<close>
  dcent :: "'d"                  \<comment> \<open>\<^verbatim>\<open>Decimal("0.01")\<close>\<close>
  escale :: "'d \<Rightarrow> int \<Rightarrow> 'd"      \<comment> \<open>\<^verbatim>\<open>total * Decimal(str(math.e / width))\<close>, \<^verbatim>\<open>width\<close> not zero\<close>

text \<open>
  Python indexing of a sequence of length \<open>n\<close>: a negative index counts from the end, and
  an index out of range raises \<^verbatim>\<open>IndexError\<close>.
\<close>

definition py_index :: "nat \<Rightarrow> int \<Rightarrow> error + nat" where
  "py_index n j =
     (if 0 \<le> j \<and> j < int n then Inr (nat j)
      else if - int n \<le> j \<and> j < 0 then Inr (nat (int n + j))
      else Inl IndexError)"

section \<open>The module \<^verbatim>\<open>heapq\<close>\<close>

text \<open>
  The heap functions of the standard library (\<^verbatim>\<open>Lib/heapq.py\<close>), on a list and with the
  comparison \<^verbatim>\<open>__lt__\<close> of the elements as the parameter \<open>lt\<close>. Each loop moves a hole:
  \<open>newitem\<close> is written back when the loop ends.
\<close>

function siftdown_loop :: "('a \<Rightarrow> 'a \<Rightarrow> bool) \<Rightarrow> 'a list \<Rightarrow> nat \<Rightarrow> nat \<Rightarrow> 'a \<Rightarrow> 'a list" where
  "siftdown_loop lt heap startpos pos newitem =
     (if startpos < pos then
        (if lt newitem (heap ! ((pos - 1) div 2))
         then siftdown_loop lt (heap[pos := heap ! ((pos - 1) div 2)]) startpos ((pos - 1) div 2) newitem
         else heap[pos := newitem])
      else heap[pos := newitem])"
  by pat_completeness auto
termination
  by (relation "measure (\<lambda>(lt, heap, startpos, pos, newitem). pos)") auto

definition siftdown :: "('a \<Rightarrow> 'a \<Rightarrow> bool) \<Rightarrow> 'a list \<Rightarrow> nat \<Rightarrow> nat \<Rightarrow> 'a list" where
  "siftdown lt heap startpos pos = siftdown_loop lt heap startpos pos (heap ! pos)"

definition smaller_child :: "('a \<Rightarrow> 'a \<Rightarrow> bool) \<Rightarrow> 'a list \<Rightarrow> nat \<Rightarrow> nat \<Rightarrow> nat" where
  "smaller_child lt heap endpos pos =
     (if 2 * pos + 2 < endpos \<and> \<not> lt (heap ! (2 * pos + 1)) (heap ! (2 * pos + 2))
      then 2 * pos + 2 else 2 * pos + 1)"

function siftup_loop :: "('a \<Rightarrow> 'a \<Rightarrow> bool) \<Rightarrow> 'a list \<Rightarrow> nat \<Rightarrow> nat \<Rightarrow> 'a list \<times> nat" where
  "siftup_loop lt heap endpos pos =
     (if 2 * pos + 1 < endpos
      then siftup_loop lt (heap[pos := heap ! smaller_child lt heap endpos pos]) endpos
             (smaller_child lt heap endpos pos)
      else (heap, pos))"
  by pat_completeness auto
termination
  by (relation "measure (\<lambda>(lt, heap, endpos, pos). endpos - pos)")
     (auto simp: smaller_child_def)

definition siftup :: "('a \<Rightarrow> 'a \<Rightarrow> bool) \<Rightarrow> 'a list \<Rightarrow> nat \<Rightarrow> 'a list" where
  "siftup lt heap pos =
     (case siftup_loop lt heap (length heap) pos of
        (heap', pos') \<Rightarrow> siftdown lt (heap'[pos' := heap ! pos]) pos pos')"

definition heappush :: "('a \<Rightarrow> 'a \<Rightarrow> bool) \<Rightarrow> 'a list \<Rightarrow> 'a \<Rightarrow> 'a list" where
  "heappush lt heap item = siftdown lt (heap @ [item]) 0 (length heap)"

definition heappop :: "('a \<Rightarrow> 'a \<Rightarrow> bool) \<Rightarrow> 'a list \<Rightarrow> error + 'a \<times> 'a list" where
  "heappop lt heap =
     (if heap = [] then Inl IndexError
      else if butlast heap = [] then Inr (last heap, [])
      else Inr (hd heap, siftup lt ((butlast heap)[0 := last heap]) 0))"

definition heapify :: "('a \<Rightarrow> 'a \<Rightarrow> bool) \<Rightarrow> 'a list \<Rightarrow> 'a list" where
  "heapify lt x = fold (\<lambda>i heap. siftup lt heap i) (rev [0..<length x div 2]) x"

section \<open>\<^verbatim>\<open>CountMinSketch\<close>\<close>

record ('d, 'f) sketch =
  width :: int
  depth :: int
  table :: "'f list list"
  total_sum :: 'd

text \<open>
  \<^verbatim>\<open>__init__\<close> checks nothing itself; \<^verbatim>\<open>np.zeros((depth, width))\<close> raises \<^verbatim>\<open>ValueError\<close>
  on a negative dimension and accepts zero.
\<close>

definition new_sketch :: "('d, 'f) prims \<Rightarrow> int \<Rightarrow> int \<Rightarrow> error + ('d, 'f) sketch" where
  "new_sketch P w d =
     (if w < 0 \<or> d < 0 then Inl ValueError
      else Inr \<lparr>width = w, depth = d,
                table = replicate (nat d) (replicate (nat w) (fzero P)),
                total_sum = dzero P\<rparr>)"

definition sketch_hash :: "('d, 'f) prims \<Rightarrow> ('d, 'f) sketch \<Rightarrow> string \<Rightarrow> nat \<Rightarrow> error + int" where
  "sketch_hash P s item seed =
     (if width s = 0 then Inl ZeroDivisionError
      else Inr (int (digest P seed item) mod width s))"

definition get_cell :: "'f list list \<Rightarrow> nat \<Rightarrow> int \<Rightarrow> error + 'f" where
  "get_cell t i j =
     (if i < length t
      then (case py_index (length (t ! i)) j of
              Inl e \<Rightarrow> Inl e
            | Inr c \<Rightarrow> Inr (t ! i ! c))
      else Inl IndexError)"

definition set_cell :: "'f list list \<Rightarrow> nat \<Rightarrow> int \<Rightarrow> 'f \<Rightarrow> error + 'f list list" where
  "set_cell t i j v =
     (if i < length t
      then (case py_index (length (t ! i)) j of
              Inl e \<Rightarrow> Inl e
            | Inr c \<Rightarrow> Inr (t[i := (t ! i)[c := v]]))
      else Inl IndexError)"

text \<open>The loop of \<^verbatim>\<open>add\<close> over the rows; an exception leaves the rows already updated.\<close>

fun add_rows ::
  "('d, 'f) prims \<Rightarrow> ('d, 'f) sketch \<Rightarrow> string \<Rightarrow> 'f \<Rightarrow> nat list \<Rightarrow> 'f list list
     \<Rightarrow> error option \<times> 'f list list" where
  "add_rows P s npi fee [] t = (None, t)"
| "add_rows P s npi fee (i # rows) t =
     (case sketch_hash P s npi i of
        Inl e \<Rightarrow> (Some e, t)
      | Inr j \<Rightarrow>
          (case get_cell t i j of
             Inl e \<Rightarrow> (Some e, t)
           | Inr c \<Rightarrow>
               (case set_cell t i j (fadd P c fee) of
                  Inl e \<Rightarrow> (Some e, t)
                | Inr t' \<Rightarrow> add_rows P s npi fee rows t')))"

definition sketch_add ::
  "('d, 'f) prims \<Rightarrow> ('d, 'f) sketch \<Rightarrow> string \<Rightarrow> 'd \<Rightarrow> error option \<times> ('d, 'f) sketch" where
  "sketch_add P s npi net_fee =
     (case add_rows P s npi (to_float P net_fee) [0..<nat (depth s)] (table s) of
        (Some e, t) \<Rightarrow> (Some e, s\<lparr>table := t\<rparr>)
      | (None, t) \<Rightarrow> (None, s\<lparr>table := t, total_sum := dadd P (total_sum s) net_fee\<rparr>))"

text \<open>\<^verbatim>\<open>min(min_estimate, cell)\<close> returns \<open>cell\<close> when \<^verbatim>\<open>cell < min_estimate\<close>.\<close>

fun estimate_rows ::
  "('d, 'f) prims \<Rightarrow> ('d, 'f) sketch \<Rightarrow> string \<Rightarrow> nat list \<Rightarrow> 'f \<Rightarrow> error + 'f" where
  "estimate_rows P s npi [] m = Inr m"
| "estimate_rows P s npi (i # rows) m =
     (case sketch_hash P s npi i of
        Inl e \<Rightarrow> Inl e
      | Inr j \<Rightarrow>
          (case get_cell (table s) i j of
             Inl e \<Rightarrow> Inl e
           | Inr c \<Rightarrow> estimate_rows P s npi rows (if fless P c m then c else m)))"

definition sketch_estimate :: "('d, 'f) prims \<Rightarrow> ('d, 'f) sketch \<Rightarrow> string \<Rightarrow> error + 'd" where
  "sketch_estimate P s npi =
     (case estimate_rows P s npi [0..<nat (depth s)] (finf P) of
        Inl e \<Rightarrow> Inl e
      | Inr m \<Rightarrow> Inr (of_float P m))"


definition sketch_clear :: "('d, 'f) prims \<Rightarrow> ('d, 'f) sketch \<Rightarrow> ('d, 'f) sketch" where
  "sketch_clear P s = s\<lparr>table := map (map (\<lambda>c. fzero P)) (table s), total_sum := dzero P\<rparr>"

definition error_estimate :: "('d, 'f) prims \<Rightarrow> ('d, 'f) sketch \<Rightarrow> error + 'd" where
  "error_estimate P s =
     (if width s = 0 then Inl ZeroDivisionError
      else Inr (escale P (total_sum s) (width s)))"

section \<open>\<^verbatim>\<open>TopProvidersTracker\<close>\<close>

text \<open>
  A \<^verbatim>\<open>ProviderNetFee\<close> object is shared by the heap list and by the dictionary, and
  \<^verbatim>\<open>_update_top_k\<close> mutates it through the dictionary. The objects therefore live in a
  store, the list \<open>objects\<close>, and the heap and the dictionary hold addresses into it.
  A dictionary is an association list in insertion order.
\<close>

record 'd entry =
  provider_npi :: string
  net_fee_total :: 'd
  claim_count :: int

record ('d, 'f) tracker =
  tracker_k :: int
  sketch :: "('d, 'f) sketch"
  objects :: "'d entry list"
  top_providers :: "nat list"
  provider_map :: "(string \<times> nat) list"
  claim_counts :: "(string \<times> int) list"

definition new_tracker ::
  "('d, 'f) prims \<Rightarrow> int \<Rightarrow> int \<Rightarrow> int \<Rightarrow> error + ('d, 'f) tracker" where
  "new_tracker P k w d =
     (case new_sketch P w d of
        Inl e \<Rightarrow> Inl e
      | Inr s \<Rightarrow> Inr \<lparr>tracker_k = k, sketch = s, objects = [], top_providers = [],
                       provider_map = [], claim_counts = []\<rparr>)"

text \<open>\<^verbatim>\<open>ProviderNetFee.__lt__\<close>, on the objects at two addresses.\<close>

definition entry_lt :: "('d::linorder) entry list \<Rightarrow> nat \<Rightarrow> nat \<Rightarrow> bool" where
  "entry_lt objs a b \<longleftrightarrow> net_fee_total (objs ! a) < net_fee_total (objs ! b)"

definition get_count :: "(string \<times> int) list \<Rightarrow> string \<Rightarrow> int" where
  "get_count counts npi = (case map_of counts npi of None \<Rightarrow> 0 | Some c \<Rightarrow> c)"

definition insert_new ::
  "('d::linorder, 'f) tracker \<Rightarrow> nat list \<Rightarrow> (string \<times> nat) list \<Rightarrow> string \<Rightarrow> 'd
     \<Rightarrow> ('d, 'f) tracker" where
  "insert_new t heap pmap npi est =
     (let a = length (objects t);
          objs = objects t @ [\<lparr>provider_npi = npi, net_fee_total = est,
                               claim_count = get_count (claim_counts t) npi\<rparr>]
      in t\<lparr>objects := objs,
            top_providers := heappush (entry_lt objs) heap a,
            provider_map := AList.update npi a pmap\<rparr>)"

definition update_top_k ::
  "('d::linorder, 'f) tracker \<Rightarrow> string \<Rightarrow> 'd \<Rightarrow> error option \<times> ('d, 'f) tracker" where
  "update_top_k t npi est =
     (case map_of (provider_map t) npi of
        Some a \<Rightarrow>
          (let objs = (objects t)[a := (objects t ! a)\<lparr>net_fee_total := est,
                                      claim_count := get_count (claim_counts t) npi\<rparr>]
           in (None, t\<lparr>objects := objs,
                        top_providers := heapify (entry_lt objs) (top_providers t)\<rparr>))
      | None \<Rightarrow>
          if int (length (top_providers t)) < tracker_k t
          then (None, insert_new t (top_providers t) (provider_map t) npi est)
          else (case top_providers t of
                  [] \<Rightarrow> (Some IndexError, t)
                | a0 # rest \<Rightarrow>
                    if net_fee_total (objects t ! a0) < est
                    then (case heappop (entry_lt (objects t)) (top_providers t) of
                            Inl e \<Rightarrow> (Some e, t)
                          | Inr (removed, heap) \<Rightarrow>
                              (case map_of (provider_map t) (provider_npi (objects t ! removed)) of
                                 None \<Rightarrow> (Some KeyError, t\<lparr>top_providers := heap\<rparr>)
                               | Some a \<Rightarrow>
                                   (None, insert_new t heap
                                      (AList.delete (provider_npi (objects t ! removed))
                                         (provider_map t))
                                      npi est)))
                    else (None, t)))"

definition add_claim ::
  "('d::linorder, 'f) prims \<Rightarrow> ('d, 'f) tracker \<Rightarrow> string \<Rightarrow> 'd
     \<Rightarrow> error option \<times> ('d, 'f) tracker" where
  "add_claim P t npi net_fee =
     (case sketch_add P (sketch t) npi net_fee of
        (Some e, s) \<Rightarrow> (Some e, t\<lparr>sketch := s\<rparr>)
      | (None, s) \<Rightarrow>
          (let t1 = t\<lparr>sketch := s,
                      claim_counts :=
                        AList.update npi (get_count (claim_counts t) npi + 1) (claim_counts t)\<rparr>
           in case sketch_estimate P s npi of
                Inl e \<Rightarrow> (Some e, t1)
              | Inr estimated_total \<Rightarrow> update_top_k t1 npi estimated_total))"

text \<open>
  \<^verbatim>\<open>sorted(xs, key=..., reverse=True)\<close> is stable: the list is reversed, sorted in
  ascending order, and reversed again.
\<close>

definition get_top_k :: "('d::linorder, 'f) tracker \<Rightarrow> 'd entry list \<times> ('d, 'f) tracker" where
  "get_top_k t =
     (map (\<lambda>a. objects t ! a)
        (rev (sort_key (\<lambda>a. net_fee_total (objects t ! a)) (rev (top_providers t)))), t)"

record 'd discrepancy =
  d_provider_npi :: string
  heap_value :: 'd
  d_sketch_estimate :: 'd
  difference :: 'd

record 'd stats =
  heap_size :: nat
  total_providers :: nat
  total_net_fees :: 'd
  max_error_estimate :: 'd
  discrepancies :: "'d discrepancy list"

fun check_entries ::
  "('d::linorder, 'f) prims \<Rightarrow> ('d, 'f) tracker \<Rightarrow> nat list \<Rightarrow> 'd discrepancy list
     \<Rightarrow> error + 'd discrepancy list" where
  "check_entries P t [] acc = Inr acc"
| "check_entries P t (a # as) acc =
     (case sketch_estimate P (sketch t) (provider_npi (objects t ! a)) of
        Inl e \<Rightarrow> Inl e
      | Inr est \<Rightarrow>
          (case dabsdiff P est (net_fee_total (objects t ! a)) of
             Inl e \<Rightarrow> Inl e
           | Inr diff \<Rightarrow>
               if dcent P < diff
               then check_entries P t as
                      (acc @ [\<lparr>d_provider_npi = provider_npi (objects t ! a),
                               heap_value = net_fee_total (objects t ! a),
                               d_sketch_estimate = est, difference = diff\<rparr>])
               else check_entries P t as acc))"

definition verify_accuracy ::
  "('d::linorder, 'f) prims \<Rightarrow> ('d, 'f) tracker \<Rightarrow> (error + 'd stats) \<times> ('d, 'f) tracker" where
  "verify_accuracy P t =
     (case error_estimate P (sketch t) of
        Inl e \<Rightarrow> (Inl e, t)
      | Inr bound \<Rightarrow>
          (case check_entries P t (top_providers t) [] of
             Inl e \<Rightarrow> (Inl e, t)
           | Inr ds \<Rightarrow>
               (Inr \<lparr>heap_size = length (top_providers t),
                     total_providers = length (claim_counts t),
                     total_net_fees = total_sum (sketch t),
                     max_error_estimate = bound,
                     discrepancies = ds\<rparr>, t)))"

section \<open>Sequences of calls\<close>

text \<open>
  A caller may catch an exception and go on: the state after a call that raised is a
  state of the tracker like any other.
\<close>

fun run_claims ::
  "('d::linorder, 'f) prims \<Rightarrow> ('d, 'f) tracker \<Rightarrow> (string \<times> 'd) list \<Rightarrow> ('d, 'f) tracker" where
  "run_claims P t [] = t"
| "run_claims P t (ev # evs) = run_claims P (snd (add_claim P t (fst ev) (snd ev))) evs"


section \<open>An exact instance of the primitives\<close>

text \<open>
  For the concrete runs below: numbers are rationals with one infinity, and every
  operation is exact. On the inputs used here (integers of a few digits) \<^verbatim>\<open>float64\<close> and
  \<^verbatim>\<open>Decimal\<close> compute the same values. The digest stands in for SHA-256; the runs that
  depend on a collision use width 1, where every digest gives column 0.
\<close>

datatype xnum = Fin rat | Infinity

instantiation xnum :: linorder
begin

fun less_eq_xnum :: "xnum \<Rightarrow> xnum \<Rightarrow> bool" where
  "less_eq_xnum (Fin a) (Fin b) = (a \<le> b)"
| "less_eq_xnum x Infinity = True"
| "less_eq_xnum Infinity (Fin b) = False"

definition less_xnum :: "xnum \<Rightarrow> xnum \<Rightarrow> bool" where
  "less_xnum x y = (x \<le> y \<and> \<not> y \<le> x)"

instance
proof
  fix x y z :: xnum
  show "(x < y) = (x \<le> y \<and> \<not> y \<le> x)" by (simp add: less_xnum_def)
  show "x \<le> x" by (cases x) auto
  show "x \<le> y \<Longrightarrow> y \<le> z \<Longrightarrow> x \<le> z" by (cases x; cases y; cases z) auto
  show "x \<le> y \<Longrightarrow> y \<le> x \<Longrightarrow> x = y" by (cases x; cases y) auto
  show "x \<le> y \<or> y \<le> x" by (cases x; cases y) auto
qed

end

fun xadd :: "xnum \<Rightarrow> xnum \<Rightarrow> xnum" where
  "xadd (Fin a) (Fin b) = Fin (a + b)"
| "xadd x y = Infinity"

fun xabsdiff :: "xnum \<Rightarrow> xnum \<Rightarrow> error + xnum" where
  "xabsdiff (Fin a) (Fin b) = Inr (Fin \<bar>a - b\<bar>)"
| "xabsdiff Infinity Infinity = Inl InvalidOperation"
| "xabsdiff x y = Inr Infinity"

definition exact :: "(xnum, xnum) prims" where
  "exact = \<lparr>digest = (\<lambda>seed item. seed + sum_list (map of_char item)),
            to_float = id, of_float = id, fzero = Fin 0, finf = Infinity,
            fadd = xadd, fless = (<), dzero = Fin 0, dadd = xadd,
            dabsdiff = xabsdiff, dcent = Fin (1 / 100),
            escale = (\<lambda>t w. case t of
                               Fin q \<Rightarrow> Fin (q * (2718281828459045 / 10 ^ 15) / of_int w)
                             | Infinity \<Rightarrow> Infinity)\<rparr>"

section \<open>Invariants\<close>







definition min_total :: "('d::linorder, 'f) tracker \<Rightarrow> 'd" where
  "min_total t = Min (set (map (\<lambda>a. net_fee_total (objects t ! a)) (top_providers t)))"



declare siftdown_loop.simps [simp del] siftup_loop.simps [simp del]

section \<open>The heap functions keep the elements\<close>


lemma siftdown_loop_length [simp]:
  "length (siftdown_loop lt heap startpos pos x) = length heap"
  by (induction lt heap startpos pos x rule: siftdown_loop.induct)
     (subst siftdown_loop.simps, simp)

lemma mset_move_hole:
  assumes "i < length heap" "j < length heap" "i \<noteq> j"
  shows "mset (heap[i := heap ! j, j := x]) = mset (heap[i := x])"
proof -
  let ?ls = "heap[i := x]"
  have "mset (?ls[j := ?ls ! i, i := ?ls ! j]) = mset ?ls"
    using assms by (intro mset_swap) auto
  moreover have "?ls[j := ?ls ! i, i := ?ls ! j] = heap[i := heap ! j, j := x]"
    using assms by (auto simp: list_eq_iff_nth_eq nth_list_update)
  ultimately show ?thesis by simp
qed

lemma siftdown_loop_mset:
  "pos < length heap \<Longrightarrow> mset (siftdown_loop lt heap startpos pos x) = mset (heap[pos := x])"
proof (induction lt heap startpos pos x rule: siftdown_loop.induct)
  case (1 lt heap startpos pos newitem)
  show ?case
  proof (cases "startpos < pos \<and> lt newitem (heap ! ((pos - 1) div 2))")
    case True
    then have pp: "(pos - 1) div 2 < pos" by auto
    have "mset (siftdown_loop lt heap startpos pos newitem)
        = mset (siftdown_loop lt (heap[pos := heap ! ((pos - 1) div 2)]) startpos ((pos - 1) div 2) newitem)"
      using True by (subst siftdown_loop.simps) simp
    also have "\<dots> = mset (heap[pos := heap ! ((pos - 1) div 2), (pos - 1) div 2 := newitem])"
      using True pp "1.prems" by (intro "1.IH") auto
    also have "\<dots> = mset (heap[pos := newitem])"
      using "1.prems" pp by (intro mset_move_hole) auto
    finally show ?thesis .
  next
    case False
    then show ?thesis by (subst siftdown_loop.simps) auto
  qed
qed

lemma siftdown_length [simp]: "length (siftdown lt heap startpos pos) = length heap"
  by (simp add: siftdown_def)

lemma siftdown_mset: "pos < length heap \<Longrightarrow> mset (siftdown lt heap startpos pos) = mset heap"
  by (simp add: siftdown_def siftdown_loop_mset)

lemma smaller_child_bounds:
  "2 * pos + 1 < endpos \<Longrightarrow> pos < smaller_child lt heap endpos pos \<and> smaller_child lt heap endpos pos < endpos"
  by (auto simp: smaller_child_def)

lemma siftup_loop_props:
  "pos < length heap \<Longrightarrow> endpos \<le> length heap \<Longrightarrow> siftup_loop lt heap endpos pos = (heap', pos') \<Longrightarrow>
     length heap' = length heap \<and> pos \<le> pos' \<and> pos' < length heap
     \<and> mset (heap'[pos' := x]) = mset (heap[pos := x])"
proof (induction lt heap endpos pos arbitrary: heap' pos' rule: siftup_loop.induct)
  case (1 lt heap endpos pos)
  show ?case
  proof (cases "2 * pos + 1 < endpos")
    case True
    let ?c = "smaller_child lt heap endpos pos"
    have c: "pos < ?c" "?c < endpos" using smaller_child_bounds[OF True] by auto
    have eq: "siftup_loop lt (heap[pos := heap ! ?c]) endpos ?c = (heap', pos')"
      using "1.prems"(3) True by (subst (asm) siftup_loop.simps) simp
    have IH: "length heap' = length (heap[pos := heap ! ?c]) \<and> ?c \<le> pos' \<and> pos' < length (heap[pos := heap ! ?c])
        \<and> mset (heap'[pos' := x]) = mset (heap[pos := heap ! ?c, ?c := x])"
      using c "1.prems" by (intro "1.IH"[OF True _ _ eq]) auto
    have "mset (heap[pos := heap ! ?c, ?c := x]) = mset (heap[pos := x])"
      using c "1.prems" by (intro mset_move_hole) auto
    with IH c show ?thesis by auto
  next
    case False
    then show ?thesis using "1.prems" by (subst (asm) siftup_loop.simps) auto
  qed
qed

lemma siftup_length [simp]: "pos < length heap \<Longrightarrow> length (siftup lt heap pos) = length heap"
  by (auto simp: siftup_def split: prod.splits dest: siftup_loop_props[where x = undefined])

lemma siftup_mset: "pos < length heap \<Longrightarrow> mset (siftup lt heap pos) = mset heap"
proof -
  assume p: "pos < length heap"
  obtain h' p' where eq: "siftup_loop lt heap (length heap) pos = (h', p')" by force
  from siftup_loop_props[OF p _ eq, of "heap ! pos"]
  have *: "length h' = length heap" "p' < length heap" "mset (h'[p' := heap ! pos]) = mset heap"
    by auto
  show ?thesis using * by (simp add: siftup_def eq siftdown_mset)
qed

lemma heapify_aux:
  "\<forall>i\<in>set is. i < length heap \<Longrightarrow>
     mset (fold (\<lambda>i heap. siftup lt heap i) is heap) = mset heap
     \<and> length (fold (\<lambda>i heap. siftup lt heap i) is heap) = length heap"
  by (induction "is" arbitrary: heap) (auto simp: siftup_mset)

lemma heapify_mset [simp]: "mset (heapify lt x) = mset x"
  unfolding heapify_def by (rule heapify_aux[THEN conjunct1]) auto

lemma heappush_mset [simp]: "mset (heappush lt heap item) = add_mset item (mset heap)"
  by (simp add: heappush_def siftdown_mset)



lemma heapify_set [simp]: "set (heapify lt x) = set x"
  using heapify_mset[of lt x] by (metis set_mset_mset)
lemma heapify_distinct [simp]: "distinct (heapify lt x) = distinct x"
  using heapify_mset[of lt x] by (metis mset_eq_imp_distinct_iff)
lemma heapify_len [simp]: "length (heapify lt x) = length x"
  using heapify_mset[of lt x] by (metis mset_eq_length)
lemma heappush_set [simp]: "set (heappush lt h x) = insert x (set h)"
  using heappush_mset[of lt h x] by (metis set_mset_add_mset_insert set_mset_mset)
lemma heappush_len [simp]: "length (heappush lt h x) = Suc (length h)"
  using heappush_mset[of lt h x] by (metis size_add_mset size_mset)
lemma heappush_distinct [simp]: "distinct (heappush lt h x) = (x \<notin> set h \<and> distinct h)"
  using heappush_mset[of lt h x] by (metis distinct.simps(2) mset.simps(2) mset_eq_imp_distinct_iff)


section \<open>The invariants hold in every reachable state\<close>

lemma update_fresh: "map_of al k = None \<Longrightarrow> AList.update k v al = al @ [(k, v)]"
  by (induction al) (auto split: if_splits)




































section \<open>An add touches only the columns of its provider\<close>











section \<open>Construction\<close>



section \<open>Negative amounts\<close>




section \<open>Merge\<close>



section \<open>The heap and the dictionary of providers\<close>




text \<open>
  C6: when the heap is full (its size is k), the provider of the call is not in the
  dictionary, and the estimate that \<^verbatim>\<open>add_claim\<close> reads back from the sketch after adding
  the amount is equal to or less than the smallest total held in the heap, then nothing
  is evicted and the provider is not admitted: the call returns with the heap, the
  dictionary and the entries as they were.
\<close>

theorem C6_tie_keeps_incumbent:
  assumes full: "int (length (top_providers t)) = tracker_k t"
    and ne: "top_providers t \<noteq> []"
    and absent: "map_of (provider_map t) npi = None"
    and added: "sketch_add P (sketch t) npi net_fee = (None, s)"
    and est: "sketch_estimate P s npi = Inr est"
    and le: "est \<le> min_total t"
  shows "fst (add_claim P t npi net_fee) = None
       \<and> top_providers (snd (add_claim P t npi net_fee)) = top_providers t
       \<and> provider_map (snd (add_claim P t npi net_fee)) = provider_map t
       \<and> objects (snd (add_claim P t npi net_fee)) = objects t"
proof -
  let ?t1 = "t\<lparr>sketch := s, claim_counts :=
                  AList.update npi (get_count (claim_counts t) npi + 1) (claim_counts t)\<rparr>"
  obtain a0 rest where c: "top_providers t = a0 # rest"
    using ne by (cases "top_providers t") auto
  have "min_total t \<le> net_fee_total (objects t ! a0)"
    unfolding min_total_def using c by (intro Min_le) auto
  with le have "\<not> net_fee_total (objects t ! a0) < est" by auto
  then have "update_top_k ?t1 npi est = (None, ?t1)"
    using full absent c by (simp add: update_top_k_def)
  then show ?thesis using added est by (simp add: add_claim_def Let_def)
qed

theorem C6_tie_keeps_incumbent_witness:
  "int (length (top_providers (run_claims exact (projr (new_tracker exact 2 7 2))
        [(''a'', Fin 100), (''b'', Fin 150)]))) = 2
   \<and> map_of (provider_map (run_claims exact (projr (new_tracker exact 2 7 2))
        [(''a'', Fin 100), (''b'', Fin 150)])) ''c'' = None
   \<and> sketch_estimate exact (snd (sketch_add exact (sketch (run_claims exact
        (projr (new_tracker exact 2 7 2)) [(''a'', Fin 100), (''b'', Fin 150)])) ''c'' (Fin 100)))
        ''c'' = Inr (Fin 100)
   \<and> min_total (run_claims exact (projr (new_tracker exact 2 7 2))
        [(''a'', Fin 100), (''b'', Fin 150)]) = Fin 100
   \<and> top_providers (snd (add_claim exact (run_claims exact (projr (new_tracker exact 2 7 2))
        [(''a'', Fin 100), (''b'', Fin 150)]) ''c'' (Fin 100))) = [0, 1]
   \<and> provider_map (snd (add_claim exact (run_claims exact (projr (new_tracker exact 2 7 2))
        [(''a'', Fin 100), (''b'', Fin 150)]) ''c'' (Fin 100))) = [(''a'', 0), (''b'', 1)]"
proof -
  let ?W = "run_claims exact (projr (new_tracker exact 2 7 2))
        [(''a'', Fin 100), (''b'', Fin 150)]"
  let ?s = "snd (sketch_add exact (sketch ?W) ''c'' (Fin 100))"
  have k: "tracker_k ?W = 2" and top: "top_providers ?W = [0, 1]"
    and pm: "provider_map ?W = [(''a'', 0), (''b'', 1)]"
    and added: "sketch_add exact (sketch ?W) ''c'' (Fin 100) = (None, ?s)"
    and est: "sketch_estimate exact ?s ''c'' = Inr (Fin 100)"
    and m: "min_total ?W = Fin 100"
    by code_simp+
  have h: "int (length (top_providers ?W)) = tracker_k ?W" "top_providers ?W \<noteq> []"
          "map_of (provider_map ?W) ''c'' = None" "Fin 100 \<le> min_total ?W"
    unfolding k top pm m by simp_all
  note c = C6_tie_keeps_incumbent[OF h(1,2,3) added est h(4)]
  show ?thesis
    unfolding c[THEN conjunct2, THEN conjunct1] c[THEN conjunct2, THEN conjunct2, THEN conjunct1]
      est m top pm
    by simp
qed

section \<open>The accuracy diagnostic\<close>




section \<open>Reading the ranking\<close>



section \<open>Read operations\<close>

text \<open>
  C10: \<^verbatim>\<open>get_top_k\<close> and \<^verbatim>\<open>verify_accuracy\<close> are read operations: whatever they return or
  raise, the state of the tracker after the call (sketch table, total sum, heap, dictionary
  of providers, claim counts and the objects they hold) is the state before it.
\<close>

theorem C10_reads_leave_state:
  "snd (get_top_k t) = t \<and> snd (verify_accuracy P t) = t"
  by (simp add: get_top_k_def verify_accuracy_def split: sum.splits)

end
